theory Spec2Isabelle
  imports Complex_Main "HOL-Library.AList" "HOL-Library.List_Lexorder"
begin

section \<open>Data model of the rating engine (src/main.py)\<close>

text \<open>
  A Python \<open>str\<close> is a sequence of Unicode code points; it is modelled as the list of
  its code points, so that comparison (\<open>==\<close>, \<open>sorted\<close>) and \<open>strip\<close> read as in
  Python. Python floats are modelled as exact reals: rounding, infinities and the
  \<open>OverflowError\<close> of \<open>**\<close> on huge exponents are outside the model. A property
  that holds of the reals only through an algebraic identity (two terms that cancel, a
  sum that is exactly one) is therefore not a property of the code's doubles; such an
  identity is marked where it appears and no claim's theorem rests on one. The claims'
  theorems state the formulas themselves, values that are exact in doubles, and facts
  about the dictionaries and the printed lines.
\<close>

type_synonym pystr = "nat list"

text \<open>The result tokens of the source, as code points:
  U+52DD (win), U+52DD U+5229 (victory), U+3007 (circle),
  U+8CA0 (lose), U+6557 U+5317 (defeat), U+2715 (cross).\<close>

definition tok_kachi :: pystr where "tok_kachi = [21213]"
definition tok_shouri :: pystr where "tok_shouri = [21213, 21033]"
definition tok_maru :: pystr where "tok_maru = [12295]"
definition tok_make :: pystr where "tok_make = [36000]"
definition tok_haiboku :: pystr where "tok_haiboku = [25943, 21271]"
definition tok_batsu :: pystr where "tok_batsu = [10005]"

record stats =
  wins :: int
  losses :: int

record history_entry =
  h_player_a :: pystr
  h_player_b :: pystr
  h_result_a :: pystr
  h_cards_a :: int
  h_cards_b :: int
  h_actual_score_a :: real
  h_expected_score_a :: real
  h_rating_a_before :: real
  h_rating_b_before :: real
  h_rating_a_after :: real
  h_rating_b_after :: real
  h_rating_change_a :: real
  h_rating_change_b :: real

text \<open>The object \<open>HyakuninisshuRating\<close>: the two dictionaries are association lists
  updated with \<open>AList.update\<close>, which overwrites in place and appends a new key at the
  end, as a Python dict does.\<close>

record rating_system =
  initial_rating :: real
  k_factor :: real
  card_weight :: real
  player_ratings :: "(pystr \<times> real) list"
  player_stats :: "(pystr \<times> stats) list"
  match_history :: "history_entry list"

definition init :: "real \<Rightarrow> real \<Rightarrow> real \<Rightarrow> rating_system" where
  "init ir k w =
     \<lparr>initial_rating = ir, k_factor = k, card_weight = w,
      player_ratings = [], player_stats = [], match_history = []\<rparr>"

datatype py_error = KeyError | ValueError

section \<open>Expected score and performance score\<close>

text \<open>\<open>calculate_expected_score\<close> (lines 33-44) and \<open>calculate_performance_score\<close>
  (lines 46-83). \<open>base_score\<close> is the if/elif/else of lines 59-64 and \<open>card_ratio\<close>
  the one of lines 67-71; \<open>self.card_weight\<close> is the parameter \<open>w\<close>.\<close>

definition calculate_expected_score :: "real \<Rightarrow> real \<Rightarrow> real" where
  "calculate_expected_score rating_a rating_b =
     1 / (1 + 10 powr ((rating_b - rating_a) / 400))"

definition base_score :: "pystr \<Rightarrow> real" where
  "base_score result =
     (if result = tok_shouri \<or> result = tok_kachi \<or> result = tok_maru then 1
      else if result = tok_haiboku \<or> result = tok_make \<or> result = tok_batsu then 0
      else 1 / 2)"

definition card_ratio :: "int \<Rightarrow> int \<Rightarrow> real" where
  "card_ratio cards_won cards_lost =
     (let total_cards = cards_won + cards_lost
      in if total_cards > 0 then real_of_int cards_won / real_of_int total_cards
         else 1 / 2)"

definition calculate_performance_score :: "real \<Rightarrow> pystr \<Rightarrow> int \<Rightarrow> int \<Rightarrow> real" where
  "calculate_performance_score w result cards_won cards_lost =
     (if cards_won = cards_lost then base_score result
      else max 0 (min 1 ((1 - w) * base_score result
                          + w * card_ratio cards_won cards_lost)))"


section \<open>The rating store: \<open>update_ratings\<close> (lines 85-153)\<close>

text \<open>Lines 101-103 and 104-106: a player seen for the first time gets the initial
  rating and a zeroed win/loss record.\<close>

definition ensure_player :: "rating_system \<Rightarrow> pystr \<Rightarrow> rating_system" where
  "ensure_player s p =
     (if map_of (player_ratings s) p = None
      then s\<lparr>player_ratings := AList.update p (initial_rating s) (player_ratings s),
             player_stats := AList.update p \<lparr>wins = 0, losses = 0\<rparr> (player_stats s)\<rparr>
      else s)"

text \<open>\<open>self.player_stats[p]['wins'] += 1\<close>: the lookup raises \<open>KeyError\<close> for a player
  without a record.\<close>

definition add_win :: "pystr \<Rightarrow> (pystr \<times> stats) list \<Rightarrow> py_error + (pystr \<times> stats) list" where
  "add_win p st =
     (case map_of st p of
        None \<Rightarrow> Inl KeyError
      | Some r \<Rightarrow> Inr (AList.update p (r\<lparr>wins := wins r + 1\<rparr>) st))"

definition add_loss :: "pystr \<Rightarrow> (pystr \<times> stats) list \<Rightarrow> py_error + (pystr \<times> stats) list" where
  "add_loss p st =
     (case map_of st p of
        None \<Rightarrow> Inl KeyError
      | Some r \<Rightarrow> Inr (AList.update p (r\<lparr>losses := losses r + 1\<rparr>) st))"

text \<open>Lines 129-134.\<close>

definition record_result ::
  "pystr \<Rightarrow> pystr \<Rightarrow> pystr \<Rightarrow> (pystr \<times> stats) list \<Rightarrow> py_error + (pystr \<times> stats) list" where
  "record_result result_a player_a player_b st =
     (if result_a = tok_kachi \<or> result_a = tok_shouri \<or> result_a = tok_maru then
        (case add_win player_a st of Inl e \<Rightarrow> Inl e | Inr st1 \<Rightarrow> add_loss player_b st1)
      else if result_a = tok_make \<or> result_a = tok_haiboku \<or> result_a = tok_batsu then
        (case add_loss player_a st of Inl e \<Rightarrow> Inl e | Inr st1 \<Rightarrow> add_win player_b st1)
      else Inr st)"

definition update_ratings ::
  "rating_system \<Rightarrow> pystr \<Rightarrow> pystr \<Rightarrow> pystr \<Rightarrow> int \<Rightarrow> int
     \<Rightarrow> py_error + (rating_system \<times> real \<times> real)" where
  "update_ratings s player_a player_b result_a cards_a cards_b =
     (let s2 = ensure_player (ensure_player s player_a) player_b
      in case map_of (player_ratings s2) player_a of
           None \<Rightarrow> Inl KeyError
         | Some rating_a \<Rightarrow>
       (case map_of (player_ratings s2) player_b of
           None \<Rightarrow> Inl KeyError
         | Some rating_b \<Rightarrow>
       (let expected_a = calculate_expected_score rating_a rating_b;
            expected_b = 1 - expected_a;
            actual_score_a =
              calculate_performance_score (card_weight s2) result_a cards_a cards_b;
            actual_score_b = 1 - actual_score_a;
            new_rating_a = rating_a + k_factor s2 * (actual_score_a - expected_a);
            new_rating_b = rating_b + k_factor s2 * (actual_score_b - expected_b);
            ratings' = AList.update player_b new_rating_b
                         (AList.update player_a new_rating_a (player_ratings s2))
        in case record_result result_a player_a player_b (player_stats s2) of
             Inl e \<Rightarrow> Inl e
           | Inr stats' \<Rightarrow>
               Inr (s2\<lparr>player_ratings := ratings',
                       player_stats := stats',
                       match_history := match_history s2 @
                         [\<lparr>h_player_a = player_a, h_player_b = player_b,
                           h_result_a = result_a, h_cards_a = cards_a, h_cards_b = cards_b,
                           h_actual_score_a = actual_score_a,
                           h_expected_score_a = expected_a,
                           h_rating_a_before = rating_a, h_rating_b_before = rating_b,
                           h_rating_a_after = new_rating_a, h_rating_b_after = new_rating_b,
                           h_rating_change_a = new_rating_a - rating_a,
                           h_rating_change_b = new_rating_b - rating_b\<rparr>]\<rparr>,
                    new_rating_a, new_rating_b))))"


section \<open>Checkpoint load: \<open>load_previous_ratings\<close> (lines 177-202)\<close>

text \<open>\<open>str.strip()\<close> removes the code points for which \<open>str.isspace\<close> holds from both
  ends.\<close>

definition is_space :: "nat \<Rightarrow> bool" where
  "is_space c \<longleftrightarrow>
     (9 \<le> c \<and> c \<le> 13) \<or> (28 \<le> c \<and> c \<le> 32) \<or> c = 133 \<or> c = 160 \<or> c = 5760
     \<or> (8192 \<le> c \<and> c \<le> 8202) \<or> c = 8232 \<or> c = 8233 \<or> c = 8239 \<or> c = 8287
     \<or> c = 12288"

definition strip :: "pystr \<Rightarrow> pystr" where
  "strip s = rev (dropWhile is_space (rev (dropWhile is_space s)))"

text \<open>A row of the checkpoint sheet. \<open>cp_player\<close> is \<open>str(row['player'])\<close>, which cannot
  fail; the other three fields hold the outcome of \<open>float(row['rating'])\<close>,
  \<open>int(row['wins'])\<close> and \<open>int(row['losses'])\<close>, with \<open>None\<close> where the conversion
  raises.\<close>

record checkpoint_row =
  cp_player :: pystr
  cp_rating :: "real option"
  cp_wins :: "int option"
  cp_losses :: "int option"

text \<open>The loop of lines 189-196. Each row is written to the store as soon as it is
  converted; the function returns the store reached and the exception that stopped the
  loop, if any.\<close>

fun load_rows :: "rating_system \<Rightarrow> checkpoint_row list \<Rightarrow> rating_system \<times> py_error option" where
  "load_rows s [] = (s, None)"
| "load_rows s (row # rows) =
     (case cp_rating row of
        None \<Rightarrow> (s, Some ValueError)
      | Some rating \<Rightarrow>
     (case cp_wins row of
        None \<Rightarrow> (s, Some ValueError)
      | Some w \<Rightarrow>
     (case cp_losses row of
        None \<Rightarrow> (s, Some ValueError)
      | Some l \<Rightarrow>
          load_rows
            (s\<lparr>player_ratings :=
                  AList.update (strip (cp_player row)) rating (player_ratings s),
                player_stats :=
                  AList.update (strip (cp_player row)) \<lparr>wins = w, losses = l\<rparr>
                    (player_stats s)\<rparr>)
            rows)))"

text \<open>The messages printed at lines 188, 198, 201 and 202.\<close>

datatype load_event = LoadStart | LoadDone nat | LoadError | StartFresh

text \<open>The sheet is \<open>None\<close> when \<open>pd.read_excel\<close> itself raises. The method returns
  nothing; the model returns the store it leaves behind and what it printed.\<close>

definition load_previous_ratings ::
  "rating_system \<Rightarrow> checkpoint_row list option \<Rightarrow> rating_system \<times> load_event list" where
  "load_previous_ratings s sheet =
     (case sheet of
        None \<Rightarrow> (s, [LoadError, StartFresh])
      | Some ratings_df \<Rightarrow>
          (case load_rows s ratings_df of
             (s', None) \<Rightarrow> (s', [LoadStart, LoadDone (length ratings_df)])
           | (s', Some e) \<Rightarrow> (s', [LoadStart, LoadError, StartFresh])))"

section \<open>Match processing: \<open>process_matches\<close> (lines 204-271)\<close>

text \<open>A row of the input sheet; \<open>None\<close> is an empty cell (NaN). The cells are typed as
  the input schema has them, so \<open>int(...)\<close> of a card count cannot raise.\<close>

record match_row =
  match_number :: "int option"
  player_name :: "pystr option"
  opponent_name :: "pystr option"
  result_cell :: "pystr option"
  cards_captured :: "int option"

text \<open>A row after \<open>dropna\<close> (line 213) and \<open>strip\<close> (lines 216-217).\<close>

record row =
  r_match :: "int option"
  r_name :: pystr
  r_opponent :: pystr
  r_result :: pystr
  r_cards :: int

definition clean_row :: "match_row \<Rightarrow> row option" where
  "clean_row r =
     (case (player_name r, opponent_name r, result_cell r, cards_captured r) of
        (Some n, Some opp, Some res, Some c) \<Rightarrow>
          Some \<lparr>r_match = match_number r, r_name = strip n, r_opponent = strip opp,
                r_result = res, r_cards = c\<rparr>
      | _ \<Rightarrow> None)"

definition clean :: "match_row list \<Rightarrow> row list" where
  "clean matches_df = List.map_filter clean_row matches_df"

text \<open>\<open>groupby\<close> (line 226) yields the groups in ascending order of the match number,
  drops the rows without one, and keeps the rows of a group in sheet order.\<close>

definition match_numbers :: "row list \<Rightarrow> int list" where
  "match_numbers rows = sort (remdups (List.map_filter r_match rows))"

definition group_of :: "row list \<Rightarrow> int \<Rightarrow> row list" where
  "group_of rows m = filter (\<lambda>r. r_match r = Some m) rows"

definition win_results :: "pystr list" where
  "win_results = [tok_kachi, tok_shouri, tok_maru]"

definition lose_results :: "pystr list" where
  "lose_results = [tok_make, tok_haiboku, tok_batsu]"

text \<open>The condition of line 262 under which a pair is reported as contradictory.\<close>

definition results_contradict :: "pystr \<Rightarrow> pystr \<Rightarrow> bool" where
  "results_contradict result opponent_result \<longleftrightarrow>
     (result \<in> set win_results \<and> opponent_result \<notin> set lose_results)
     \<or> (result \<in> set lose_results \<and> opponent_result \<notin> set win_results)"

text \<open>\<open>tuple(sorted([player, opponent]))\<close>, line 237.\<close>

definition pair_id :: "pystr \<Rightarrow> pystr \<Rightarrow> pystr \<times> pystr" where
  "pair_id player opponent =
     (if opponent < player then (opponent, player) else (player, opponent))"

text \<open>What the pass prints: line 220, the header of line 227, the three warnings of
  lines 247, 256 and 263, and the line 267 that precedes each call of
  \<open>update_ratings\<close>; \<open>Applied\<close> also carries the match number of the group whose
  header precedes it.\<close>

datatype event =
    NoValidData
  | MatchHeader int
  | MissingOpponent pystr pystr
  | OpponentMismatch pystr pystr pystr
  | ResultContradiction pystr pystr pystr pystr
  | Applied int pystr pystr int int pystr

type_synonym pass_state = "rating_system \<times> (int \<times> pystr \<times> pystr) set \<times> event list"

text \<open>The body of the inner loop, lines 231-271, for one row of the group of match
  \<open>match_num\<close>.\<close>

definition process_row :: "int \<Rightarrow> row list \<Rightarrow> row \<Rightarrow> pass_state \<Rightarrow> py_error + pass_state" where
  "process_row match_num grp player_data st =
     (case st of (s, processed_pairs, out) \<Rightarrow>
      let player = r_name player_data;
          opponent = r_opponent player_data;
          result = r_result player_data;
          cards = r_cards player_data;
          match_pair_id = (match_num, pair_id player opponent)
      in if match_pair_id \<in> processed_pairs then Inr st
         else case filter (\<lambda>q. r_name q = opponent) grp of
           [] \<Rightarrow> Inr (s, processed_pairs, out @ [MissingOpponent player opponent])
         | opponent_data # _ \<Rightarrow>
           let opponent_result = r_result opponent_data;
               opponent_cards = r_cards opponent_data
           in if r_opponent opponent_data \<noteq> player
              then Inr (s, processed_pairs,
                        out @ [OpponentMismatch player opponent (r_opponent opponent_data)])
              else if results_contradict result opponent_result
              then Inr (s, processed_pairs,
                        out @ [ResultContradiction player opponent result opponent_result])
              else case update_ratings s player opponent result cards opponent_cards of
                     Inl e \<Rightarrow> Inl e
                   | Inr (s', _) \<Rightarrow>
                       Inr (s', insert match_pair_id processed_pairs,
                            out @ [Applied match_num player opponent cards opponent_cards
                                     result]))"

fun process_rows :: "int \<Rightarrow> row list \<Rightarrow> row list \<Rightarrow> pass_state \<Rightarrow> py_error + pass_state" where
  "process_rows match_num grp [] st = Inr st"
| "process_rows match_num grp (player_data # rest) st =
     (case process_row match_num grp player_data st of
        Inl e \<Rightarrow> Inl e
      | Inr st' \<Rightarrow> process_rows match_num grp rest st')"

fun process_groups :: "row list \<Rightarrow> int list \<Rightarrow> pass_state \<Rightarrow> py_error + pass_state" where
  "process_groups rows [] st = Inr st"
| "process_groups rows (match_num # ms) (s, processed_pairs, out) =
     (case process_rows match_num (group_of rows match_num) (group_of rows match_num)
             (s, processed_pairs, out @ [MatchHeader match_num]) of
        Inl e \<Rightarrow> Inl e
      | Inr st' \<Rightarrow> process_groups rows ms st')"

definition process_matches ::
  "rating_system \<Rightarrow> match_row list \<Rightarrow> py_error + (rating_system \<times> event list)" where
  "process_matches s matches_df =
     (let rows = clean matches_df
      in if length rows = 0 then Inr (s, [NoValidData])
         else case process_groups rows (match_numbers rows) (s, {}, []) of
                Inl e \<Rightarrow> Inl e
              | Inr (s', processed_pairs, out) \<Rightarrow> Inr (s', out))"

section \<open>Notions used to state the properties\<close>

text \<open>The rating an update starts from: the stored one, or the initial rating for a
  player the store does not hold yet. Likewise for the win/loss record.\<close>

definition current_rating :: "rating_system \<Rightarrow> pystr \<Rightarrow> real" where
  "current_rating s p =
     (case map_of (player_ratings s) p of None \<Rightarrow> initial_rating s | Some r \<Rightarrow> r)"

definition current_stats :: "rating_system \<Rightarrow> pystr \<Rightarrow> stats" where
  "current_stats s p =
     (case map_of (player_stats s) p of None \<Rightarrow> \<lparr>wins = 0, losses = 0\<rparr> | Some r \<Rightarrow> r)"

text \<open>The two dictionaries of the object hold the same players: every method writes
  them together.\<close>

definition in_sync :: "rating_system \<Rightarrow> bool" where
  "in_sync s \<longleftrightarrow> fst ` set (player_stats s) = fst ` set (player_ratings s)"

definition games_counted :: "rating_system \<Rightarrow> int" where
  "games_counted s = sum_list (map (\<lambda>pr. wins (snd pr) + losses (snd pr)) (player_stats s))"

text \<open>Reading the printed lines: the pair key an \<open>Applied\<close> line stands for, how many
  updates a run applied for one key, and how many in all; which lines are warnings.\<close>

fun applied_key :: "event \<Rightarrow> (int \<times> pystr \<times> pystr) option" where
  "applied_key (Applied m p opp c oc res) = Some (m, pair_id p opp)"
| "applied_key _ = None"

definition updates_for :: "int \<times> pystr \<times> pystr \<Rightarrow> event list \<Rightarrow> nat" where
  "updates_for k out = length (filter (\<lambda>e. applied_key e = Some k) out)"

definition updates_applied :: "event list \<Rightarrow> nat" where
  "updates_applied out = length (filter (\<lambda>e. applied_key e \<noteq> None) out)"

text \<open>The updates a run applied in match \<open>m\<close> between the players \<open>a\<close> and \<open>b\<close>, in
  either order: read off the printed lines, without the key the code computes.\<close>

fun applied_between :: "int \<Rightarrow> pystr \<Rightarrow> pystr \<Rightarrow> event \<Rightarrow> bool" where
  "applied_between m a b (Applied m' p opp c oc res) \<longleftrightarrow> m' = m \<and> {p, opp} = {a, b}"
| "applied_between m a b e \<longleftrightarrow> False"

definition updates_between :: "int \<Rightarrow> pystr \<Rightarrow> pystr \<Rightarrow> event list \<Rightarrow> nat" where
  "updates_between m a b out = length (filter (applied_between m a b) out)"

text \<open>The spec's notion of complementary results: one is a win token and the other a
  loss token.\<close>

definition complementary :: "pystr \<Rightarrow> pystr \<Rightarrow> bool" where
  "complementary r1 r2 \<longleftrightarrow>
     (r1 \<in> set win_results \<and> r2 \<in> set lose_results)
     \<or> (r1 \<in> set lose_results \<and> r2 \<in> set win_results)"

text \<open>The spec's validated pair, for the rows \<open>g\<close> of one match: both players have a
  row, every row of one names the other as opponent, and the results on the rows of
  the one are complementary to those on the rows of the other. Each player may have
  any number of rows.\<close>

definition valid_pair :: "row list \<Rightarrow> pystr \<Rightarrow> pystr \<Rightarrow> bool" where
  "valid_pair g a b \<longleftrightarrow>
     (\<exists>r \<in> set g. r_name r = a) \<and> (\<exists>r \<in> set g. r_name r = b)
     \<and> (\<forall>r \<in> set g. (r_name r = a \<longrightarrow> r_opponent r = b)
                      \<and> (r_name r = b \<longrightarrow> r_opponent r = a))
     \<and> (\<forall>x \<in> set g. \<forall>y \<in> set g.
           r_name x = a \<and> r_name y = b \<longrightarrow> complementary (r_result x) (r_result y))"

text \<open>The processed pairs are exactly the keys of the \<open>Applied\<close> lines.\<close>

definition keys_inv :: "pass_state \<Rightarrow> bool" where
  "keys_inv st \<longleftrightarrow>
     (case st of (s, d, out) \<Rightarrow> d = {k. \<exists>e \<in> set out. applied_key e = Some k})"

text \<open>Invariants of the pass: every key with an \<open>Applied\<close> line is in
  \<open>processed_pairs\<close> and no key has two; the history grows by one entry per
  \<open>Applied\<close> line, and the store is the initial one as long as there is none.\<close>

definition dedup_inv :: "pass_state \<Rightarrow> bool" where
  "dedup_inv st \<longleftrightarrow>
     (case st of (s, d, out) \<Rightarrow>
        (\<forall>e \<in> set out. \<forall>k. applied_key e = Some k \<longrightarrow> k \<in> d)
        \<and> (\<forall>k. updates_for k out \<le> 1))"

definition history_inv :: "rating_system \<Rightarrow> pass_state \<Rightarrow> bool" where
  "history_inv s0 st \<longleftrightarrow>
     (case st of (s, d, out) \<Rightarrow>
        length (match_history s) = length (match_history s0) + updates_applied out
        \<and> (updates_applied out = 0 \<longrightarrow> s = s0))"

text \<open>Both invariants of the processed pairs together.\<close>

definition pass_inv :: "pass_state \<Rightarrow> bool" where
  "pass_inv st \<longleftrightarrow> keys_inv st \<and> dedup_inv st"

fun is_warning :: "event \<Rightarrow> bool" where
  "is_warning (MissingOpponent p opp) = True"
| "is_warning (OpponentMismatch p opp q) = True"
| "is_warning (ResultContradiction p opp res ores) = True"
| "is_warning _ = False"

text \<open>Sample data: players \<open>A\<close> and \<open>B\<close> are \<open>[65]\<close> and \<open>[66]\<close>; the draw token
  U+5F15 U+304D U+5206 U+3051 of the docstring of \<open>update_ratings\<close> is not one of the
  six recognised tokens; \<open>store_after_win\<close> is the store after \<open>A\<close> beat \<open>B\<close> from a
  fresh store with the default configuration.\<close>

definition tok_hikiwake :: pystr where "tok_hikiwake = [24341, 12365, 20998, 12369]"

definition store_after_win :: "int \<Rightarrow> int \<Rightarrow> rating_system" where
  "store_after_win ca cb =
     \<lparr>initial_rating = 1500, k_factor = 32, card_weight = 3 / 10,
      player_ratings = [([65], 1516), ([66], 1484)],
      player_stats = [([65], \<lparr>wins = 1, losses = 0\<rparr>), ([66], \<lparr>wins = 0, losses = 1\<rparr>)],
      match_history =
        [\<lparr>h_player_a = [65], h_player_b = [66], h_result_a = tok_kachi,
          h_cards_a = ca, h_cards_b = cb,
          h_actual_score_a = 1, h_expected_score_a = 1 / 2,
          h_rating_a_before = 1500, h_rating_b_before = 1500,
          h_rating_a_after = 1516, h_rating_b_after = 1484,
          h_rating_change_a = 16, h_rating_change_b = - 16\<rparr>]\<rparr>"

text \<open>Sample sheets: match 1 between \<open>A\<close> and \<open>B\<close>, one row per participant (the
  second name carries a trailing blank); the same match with a draw token on the row of
  \<open>A\<close>; and a checkpoint whose second row has a rating that \<open>float\<close> rejects.\<close>

definition sample_row_A :: match_row where
  "sample_row_A = \<lparr>match_number = Some 1, player_name = Some [65],
     opponent_name = Some [66], result_cell = Some tok_kachi, cards_captured = Some 17\<rparr>"

definition sample_row_B :: match_row where
  "sample_row_B = \<lparr>match_number = Some 1, player_name = Some [66, 32],
     opponent_name = Some [65], result_cell = Some tok_make, cards_captured = Some 0\<rparr>"

definition draw_row_A :: match_row where
  "draw_row_A = \<lparr>match_number = Some 1, player_name = Some [65],
     opponent_name = Some [66], result_cell = Some tok_hikiwake, cards_captured = Some 12\<rparr>"

definition draw_row_B :: match_row where
  "draw_row_B = \<lparr>match_number = Some 1, player_name = Some [66],
     opponent_name = Some [65], result_cell = Some tok_kachi, cards_captured = Some 5\<rparr>"

definition store_after_draw :: rating_system where
  "store_after_draw =
     \<lparr>initial_rating = 1500, k_factor = 32, card_weight = 3 / 10,
      player_ratings = [([65], 1500 + 168 / 85), ([66], 1500 - 168 / 85)],
      player_stats = [([65], \<lparr>wins = 0, losses = 0\<rparr>), ([66], \<lparr>wins = 0, losses = 0\<rparr>)],
      match_history =
        [\<lparr>h_player_a = [65], h_player_b = [66], h_result_a = tok_hikiwake,
          h_cards_a = 12, h_cards_b = 5,
          h_actual_score_a = 191 / 340, h_expected_score_a = 1 / 2,
          h_rating_a_before = 1500, h_rating_b_before = 1500,
          h_rating_a_after = 1500 + 168 / 85, h_rating_b_after = 1500 - 168 / 85,
          h_rating_change_a = 168 / 85, h_rating_change_b = - (168 / 85)\<rparr>]\<rparr>"



text \<open>Match 1 with two pairs, \<open>A\<close> against \<open>B\<close> and \<open>C\<close> against \<open>D\<close>, and the store
  after both wins.\<close>

definition two_pair_sheet :: "match_row list" where
  "two_pair_sheet =
     [sample_row_A, sample_row_B,
      \<lparr>match_number = Some 1, player_name = Some [67], opponent_name = Some [68],
        result_cell = Some tok_kachi, cards_captured = Some 17\<rparr>,
      \<lparr>match_number = Some 1, player_name = Some [68], opponent_name = Some [67],
        result_cell = Some tok_make, cards_captured = Some 0\<rparr>]"

definition store_two_pairs :: rating_system where
  "store_two_pairs =
     \<lparr>initial_rating = 1500, k_factor = 32, card_weight = 3 / 10,
      player_ratings = [([65], 1516), ([66], 1484), ([67], 1516), ([68], 1484)],
      player_stats = [([65], \<lparr>wins = 1, losses = 0\<rparr>), ([66], \<lparr>wins = 0, losses = 1\<rparr>),
                      ([67], \<lparr>wins = 1, losses = 0\<rparr>), ([68], \<lparr>wins = 0, losses = 1\<rparr>)],
      match_history =
        [\<lparr>h_player_a = [65], h_player_b = [66], h_result_a = tok_kachi,
          h_cards_a = 17, h_cards_b = 0,
          h_actual_score_a = 1, h_expected_score_a = 1 / 2,
          h_rating_a_before = 1500, h_rating_b_before = 1500,
          h_rating_a_after = 1516, h_rating_b_after = 1484,
          h_rating_change_a = 16, h_rating_change_b = - 16\<rparr>,
         \<lparr>h_player_a = [67], h_player_b = [68], h_result_a = tok_kachi,
          h_cards_a = 17, h_cards_b = 0,
          h_actual_score_a = 1, h_expected_score_a = 1 / 2,
          h_rating_a_before = 1500, h_rating_b_before = 1500,
          h_rating_a_after = 1516, h_rating_b_after = 1484,
          h_rating_change_a = 16, h_rating_change_b = - 16\<rparr>]\<rparr>"

definition sample_checkpoint :: "checkpoint_row list" where
  "sample_checkpoint =
     [\<lparr>cp_player = [65], cp_rating = Some 1600, cp_wins = Some 3, cp_losses = Some 1\<rparr>,
      \<lparr>cp_player = [66], cp_rating = None, cp_wins = Some 0, cp_losses = Some 0\<rparr>]"

section \<open>Properties of the two score models\<close>

text \<open>In exact arithmetic the expected scores of the two players add up to one and
  equal ratings give one half. The first is an identity of the reals, not of doubles.\<close>

lemma expected_score_sum:
  "calculate_expected_score a b + calculate_expected_score b a = 1"
proof -
  define x where "x = 10 powr ((b - a) / 400)"
  have xpos: "0 < x" by (simp add: x_def)
  have "(a - b) / 400 = - ((b - a) / 400)" by argo
  then have inv: "10 powr ((a - b) / 400) = 1 / x"
    unfolding x_def by (simp only: powr_minus_divide)
  have "1 / (1 + x) + 1 / (1 + 1 / x) = 1"
    using xpos by (simp add: field_simps)
  then show ?thesis
    by (simp add: calculate_expected_score_def inv x_def [symmetric])
qed

lemma expected_score_equal: "calculate_expected_score a a = 1 / 2"
  by (simp add: calculate_expected_score_def)

lemma performance_equal_cards:
  "calculate_performance_score w r n n = base_score r"
  by (simp add: calculate_performance_score_def)

lemma base_score_cases:
  "base_score r =
     (if r \<in> {tok_shouri, tok_kachi, tok_maru} then 1
      else if r \<in> {tok_haiboku, tok_make, tok_batsu} then 0 else 1 / 2)"
  by (simp add: base_score_def)

lemma base_score_range: "0 \<le> base_score r \<and> base_score r \<le> 1"
  by (simp add: base_score_def)

lemma performance_range:
  "0 \<le> calculate_performance_score w r cw cl \<and> calculate_performance_score w r cw cl \<le> 1"
  using base_score_range [of r] by (simp add: calculate_performance_score_def)

lemma card_ratio_pos:
  "0 \<le> cw \<Longrightarrow> 0 \<le> cl \<Longrightarrow> cw \<noteq> cl \<Longrightarrow>
   card_ratio cw cl = real_of_int cw / real_of_int (cw + cl)"
  by (simp add: card_ratio_def Let_def)

text \<open>C5: with equal card counts the performance score is the base score, whatever the
  weight: 1 for each win token and 0 for each loss token.\<close>

theorem performance_equal_capture:
  "calculate_performance_score w r n n = base_score r
   \<and> calculate_performance_score w tok_shouri n n = 1
   \<and> calculate_performance_score w tok_kachi n n = 1
   \<and> calculate_performance_score w tok_maru n n = 1
   \<and> calculate_performance_score w tok_haiboku n n = 0
   \<and> calculate_performance_score w tok_make n n = 0
   \<and> calculate_performance_score w tok_batsu n n = 0"
  by (simp add: performance_equal_cards base_score_def tok_shouri_def tok_kachi_def
        tok_maru_def tok_haiboku_def tok_make_def tok_batsu_def)

text \<open>C6: for card counts that are not negative and differ, the performance score is
  \<open>(1 - w) * base + w * cards_won / (cards_won + cards_lost)\<close> clamped to \<open>[0, 1]\<close>,
  with base 1 for a win token, 0 for a loss token and 1/2 otherwise; and the score of
  any input lies in \<open>[0, 1]\<close>.\<close>

theorem performance_weighted:
  "(0 \<le> cw \<and> 0 \<le> cl \<and> cw \<noteq> cl \<longrightarrow>
      calculate_performance_score w r cw cl =
        max 0 (min 1 ((1 - w) *
                 (if r \<in> {tok_shouri, tok_kachi, tok_maru} then 1
                  else if r \<in> {tok_haiboku, tok_make, tok_batsu} then 0 else 1 / 2)
               + w * (real_of_int cw / real_of_int (cw + cl)))))
   \<and> 0 \<le> calculate_performance_score w' r' cw' cl'
   \<and> calculate_performance_score w' r' cw' cl' \<le> 1"
proof -
  have "calculate_performance_score w r cw cl =
        max 0 (min 1 ((1 - w) *
                 (if r \<in> {tok_shouri, tok_kachi, tok_maru} then 1
                  else if r \<in> {tok_haiboku, tok_make, tok_batsu} then 0 else 1 / 2)
               + w * (real_of_int cw / real_of_int (cw + cl))))"
    if "0 \<le> cw" "0 \<le> cl" "cw \<noteq> cl"
    using that card_ratio_pos [OF that]
    by (simp only: calculate_performance_score_def base_score_cases if_False)
  then show ?thesis using performance_range [of w' r' cw' cl'] by blast
qed

theorem performance_weighted_witness:
  "(0::int) \<le> 12 \<and> (0::int) \<le> 5 \<and> (12::int) \<noteq> 5
   \<and> calculate_performance_score (3 / 10) tok_kachi 12 5 = 31 / 34"
  using performance_weighted [of 12 5 "3 / 10" tok_kachi]
  by (simp add: tok_shouri_def tok_kachi_def tok_maru_def)

section \<open>Properties of \<open>update_ratings\<close>\<close>

lemma map_of_None_iff: "map_of al k = None \<longleftrightarrow> k \<notin> fst ` set al"
  by (simp add: map_of_eq_None_iff)

lemma ensure_player_consts [simp]:
  "initial_rating (ensure_player s p) = initial_rating s"
  "k_factor (ensure_player s p) = k_factor s"
  "card_weight (ensure_player s p) = card_weight s"
  "match_history (ensure_player s p) = match_history s"
  by (simp_all add: ensure_player_def)

lemma ensure_player_self:
  "map_of (player_ratings (ensure_player s p)) p = Some (current_rating s p)"
  by (auto simp: ensure_player_def current_rating_def update_conv')

lemma ensure_player_other:
  "q \<noteq> p \<Longrightarrow> map_of (player_ratings (ensure_player s p)) q = map_of (player_ratings s) q"
  by (simp add: ensure_player_def update_conv')

lemma current_rating_ensure:
  "current_rating (ensure_player s p) q = current_rating s q"
  by (cases "q = p")
     (simp_all add: current_rating_def ensure_player_self ensure_player_other
        split: option.splits)

lemma ensure2_a:
  "map_of (player_ratings (ensure_player (ensure_player s a) b)) a = Some (current_rating s a)"
  by (cases "a = b")
     (simp_all add: ensure_player_self ensure_player_other current_rating_ensure)

lemma ensure2_b:
  "map_of (player_ratings (ensure_player (ensure_player s a) b)) b = Some (current_rating s b)"
  by (simp add: ensure_player_self current_rating_ensure)

lemma ensure2_keys:
  "fst ` set (player_ratings (ensure_player (ensure_player s a) b))
     = insert a (insert b (fst ` set (player_ratings s)))"
  by (auto simp: ensure_player_def dom_update map_of_None_iff)

lemma in_sync_ensure: "in_sync s \<Longrightarrow> in_sync (ensure_player s p)"
  by (simp add: in_sync_def ensure_player_def dom_update)

lemma in_sync_init: "in_sync (init ir k w)"
  by (simp add: in_sync_def init_def)


lemma update_ratings_Inr:
  assumes "update_ratings s a b res ca cb = Inr (s', na, nb)"
  shows "na = current_rating s a + k_factor s *
              (calculate_performance_score (card_weight s) res ca cb
               - calculate_expected_score (current_rating s a) (current_rating s b))"
    and "nb = current_rating s b + k_factor s *
              ((1 - calculate_performance_score (card_weight s) res ca cb)
               - (1 - calculate_expected_score (current_rating s a) (current_rating s b)))"
    and "player_ratings s' =
           AList.update b nb (AList.update a na
             (player_ratings (ensure_player (ensure_player s a) b)))"
    and "record_result res a b (player_stats (ensure_player (ensure_player s a) b))
           = Inr (player_stats s')"
    and "length (match_history s') = Suc (length (match_history s))"
    and "initial_rating s' = initial_rating s"
    and "k_factor s' = k_factor s"
    and "card_weight s' = card_weight s"
  using assms
  by (auto simp: update_ratings_def Let_def ensure2_a ensure2_b split: sum.splits)

lemma update_ratings_Inr_ex:
  assumes "record_result res a b (player_stats (ensure_player (ensure_player s a) b)) = Inr st"
  shows "\<exists>s' na nb. update_ratings s a b res ca cb = Inr (s', na, nb)"
  using assms
  by (simp add: update_ratings_def Let_def ensure2_a ensure2_b)


lemmas tok_defs = tok_kachi_def tok_shouri_def tok_maru_def tok_make_def tok_haiboku_def
  tok_batsu_def

lemma scenario_17_0:
  "update_ratings (init 1500 32 (3 / 10)) [65] [66] tok_kachi 17 0
     = Inr (store_after_win 17 0, 1516, 1484)"
  by (simp add: update_ratings_def ensure_player_def init_def Let_def record_result_def
        add_win_def add_loss_def calculate_expected_score_def
        calculate_performance_score_def base_score_def card_ratio_def tok_defs
        store_after_win_def)

lemma scenario_10_10:
  "update_ratings (init 1500 32 (3 / 10)) [65] [66] tok_kachi 10 10
     = Inr (store_after_win 10 10, 1516, 1484)"
  by (simp add: update_ratings_def ensure_player_def init_def Let_def record_result_def
        add_win_def add_loss_def calculate_expected_score_def
        calculate_performance_score_def base_score_def card_ratio_def tok_defs
        store_after_win_def)

lemma update_ratings_stored:
  assumes "update_ratings s a b res ca cb = Inr (s', na, nb)"
  shows "map_of (player_ratings s') b = Some nb"
    and "a \<noteq> b \<Longrightarrow> map_of (player_ratings s') a = Some na"
  using update_ratings_Inr(3) [OF assms] by (simp_all add: update_conv')

text \<open>C3: an update returns and stores, for each player, the current rating plus the
  k-factor times actual minus expected score, player B's scores being one minus player
  A's. From a fresh store with initial rating 1500, k-factor 32 and card weight 0.3, a
  win of A over B gives 1516 and 1484, both at 17-0 and at 10-10.\<close>

theorem update_ratings_elo:
  "(update_ratings s a b res ca cb = Inr (s', na, nb) \<longrightarrow>
      na = current_rating s a + k_factor s *
             (calculate_performance_score (card_weight s) res ca cb
              - calculate_expected_score (current_rating s a) (current_rating s b))
    \<and> nb = current_rating s b + k_factor s *
             ((1 - calculate_performance_score (card_weight s) res ca cb)
              - (1 - calculate_expected_score (current_rating s a) (current_rating s b)))
    \<and> map_of (player_ratings s') b = Some nb
    \<and> (a \<noteq> b \<longrightarrow> map_of (player_ratings s') a = Some na))
   \<and> update_ratings (init 1500 32 (3 / 10)) [65] [66] tok_kachi 17 0
         = Inr (store_after_win 17 0, 1516, 1484)
   \<and> update_ratings (init 1500 32 (3 / 10)) [65] [66] tok_kachi 10 10
         = Inr (store_after_win 10 10, 1516, 1484)"
  using update_ratings_Inr(1,2) [of s a b res ca cb s' na nb]
    update_ratings_stored [of s a b res ca cb s' na nb]
    scenario_17_0 scenario_10_10
  by blast

theorem update_ratings_elo_witness:
  "update_ratings (init 1500 32 (3 / 10)) [65] [66] tok_kachi 17 0
      = Inr (store_after_win 17 0, 1516, 1484)
   \<and> current_rating (init 1500 32 (3 / 10)) [65] = 1500
   \<and> current_rating (init 1500 32 (3 / 10)) [66] = 1500
   \<and> (1516::real) = 1500 + 32 *
        (calculate_performance_score (3 / 10) tok_kachi 17 0
         - calculate_expected_score 1500 1500)
   \<and> (1484::real) = 1500 + 32 *
        ((1 - calculate_performance_score (3 / 10) tok_kachi 17 0)
         - (1 - calculate_expected_score 1500 1500))
   \<and> map_of (player_ratings (store_after_win 17 0)) [65] = Some 1516
   \<and> map_of (player_ratings (store_after_win 17 0)) [66] = Some 1484"
proof -
  have cr: "current_rating (init 1500 32 (3 / 10)) [65] = 1500"
    "current_rating (init 1500 32 (3 / 10)) [66] = 1500"
    "k_factor (init 1500 32 (3 / 10)) = 32" "card_weight (init 1500 32 (3 / 10)) = 3 / 10"
    by (simp_all add: current_rating_def init_def)
  have ne: "[65::nat] \<noteq> [66]" by simp
  show ?thesis
    using update_ratings_elo [of "init 1500 32 (3 / 10)" "[65]" "[66]" tok_kachi 17 0
        "store_after_win 17 0" 1516 1484] ne
    unfolding cr by blast
qed

lemma scenario_second_pair:
  "update_ratings (store_after_win 17 0) [67] [68] tok_kachi 17 0
     = Inr (store_two_pairs, 1516, 1484)"
  by (simp add: update_ratings_def ensure_player_def Let_def record_result_def
        add_win_def add_loss_def calculate_expected_score_def
        calculate_performance_score_def base_score_def card_ratio_def tok_defs
        store_after_win_def store_two_pairs_def)







lemma sum_stats_update_new:
  fixes f :: "'k \<times> 'v \<Rightarrow> int"
  shows "map_of al k = None \<Longrightarrow>
         sum_list (map f (AList.update k v al)) = sum_list (map f al) + f (k, v)"
  by (induction al) (auto split: if_splits)

lemma in_sync_None:
  "in_sync s \<Longrightarrow> map_of (player_stats s) p = None \<longleftrightarrow> map_of (player_ratings s) p = None"
  by (simp add: in_sync_def map_of_None_iff)

lemma current_stats_ensure:
  assumes "in_sync s"
  shows "current_stats (ensure_player s p) q = current_stats s q"
proof (cases "map_of (player_ratings s) p = None")
  case True
  then have "map_of (player_stats s) p = None" using assms by (simp add: in_sync_None)
  with True show ?thesis
    by (cases "q = p") (simp_all add: current_stats_def ensure_player_def update_conv')
next
  case False
  then show ?thesis by (auto simp: ensure_player_def)
qed

lemma games_counted_ensure:
  "in_sync s \<Longrightarrow> games_counted (ensure_player s p) = games_counted s"
  by (simp add: games_counted_def ensure_player_def sum_stats_update_new in_sync_None)

lemma record_result_unrecognized:
  "res \<notin> {tok_kachi, tok_shouri, tok_maru, tok_make, tok_haiboku, tok_batsu} \<Longrightarrow>
   record_result res a b st = Inr st"
  by (simp add: record_result_def)

text \<open>C10: for a result that is none of the six tokens, \<open>update_ratings\<close> succeeds and
  applies the rating formula with the neutral base score 1/2, stores both new ratings
  and appends a history entry, but leaves every player's win/loss record as it was, so
  the games counted by the records fall behind the matches applied.\<close>

theorem unrecognized_result_update:
  assumes "res \<notin> {tok_kachi, tok_shouri, tok_maru, tok_make, tok_haiboku, tok_batsu}"
    and "in_sync s"
  shows "\<exists>s' na nb. update_ratings s a b res ca cb = Inr (s', na, nb)
       \<and> base_score res = 1 / 2
       \<and> na = current_rating s a + k_factor s *
               (calculate_performance_score (card_weight s) res ca cb
                - calculate_expected_score (current_rating s a) (current_rating s b))
       \<and> nb = current_rating s b + k_factor s *
               ((1 - calculate_performance_score (card_weight s) res ca cb)
                - (1 - calculate_expected_score (current_rating s a) (current_rating s b)))
       \<and> map_of (player_ratings s') b = Some nb
       \<and> (a \<noteq> b \<longrightarrow> map_of (player_ratings s') a = Some na)
       \<and> (\<forall>p. current_stats s' p = current_stats s p)
       \<and> games_counted s' = games_counted s
       \<and> length (match_history s') = length (match_history s) + 1"
proof -
  let ?s2 = "ensure_player (ensure_player s a) b"
  have rr: "record_result res a b (player_stats ?s2) = Inr (player_stats ?s2)"
    by (rule record_result_unrecognized [OF assms(1)])
  then obtain s' na nb where u: "update_ratings s a b res ca cb = Inr (s', na, nb)"
    using update_ratings_Inr_ex by blast
  have st: "player_stats s' = player_stats ?s2"
    using update_ratings_Inr(4) [OF u] rr by simp
  have sync1: "in_sync (ensure_player s a)" by (rule in_sync_ensure [OF assms(2)])
  have cs: "current_stats s' p = current_stats s p" for p
  proof -
    have "current_stats s' p = current_stats ?s2 p"
      by (simp add: current_stats_def st)
    then show ?thesis
      by (simp add: current_stats_ensure [OF sync1] current_stats_ensure [OF assms(2)])
  qed
  have gc: "games_counted s' = games_counted s"
  proof -
    have "games_counted s' = games_counted ?s2" by (simp add: games_counted_def st)
    then show ?thesis
      by (simp add: games_counted_ensure [OF sync1] games_counted_ensure [OF assms(2)])
  qed
  have bs: "base_score res = 1 / 2" using assms(1) by (simp add: base_score_def)
  show ?thesis
    using u update_ratings_Inr(1,2,5) [OF u] update_ratings_stored [OF u] cs gc bs
    by (intro exI [of _ s'] exI [of _ na] exI [of _ nb]) simp
qed

theorem unrecognized_result_update_witness:
  "tok_hikiwake \<notin> {tok_kachi, tok_shouri, tok_maru, tok_make, tok_haiboku, tok_batsu}
   \<and> in_sync (init 1500 32 (3 / 10))
   \<and> (\<exists>s' na nb. update_ratings (init 1500 32 (3 / 10)) [65] [66] tok_hikiwake 12 5
                      = Inr (s', na, nb)
         \<and> na = 1500 + 32 * (191 / 340 - 1 / 2)
         \<and> nb = 1500 + 32 * ((1 - 191 / 340) - (1 - 1 / 2))
         \<and> map_of (player_ratings s') [65] = Some na
         \<and> map_of (player_ratings s') [66] = Some nb
         \<and> current_stats s' [65] = \<lparr>wins = 0, losses = 0\<rparr>
         \<and> current_stats s' [66] = \<lparr>wins = 0, losses = 0\<rparr>
         \<and> games_counted s' = 0
         \<and> length (match_history s') = 1)"
proof -
  have h1: "tok_hikiwake \<notin> {tok_kachi, tok_shouri, tok_maru, tok_make, tok_haiboku, tok_batsu}"
    by (simp add: tok_hikiwake_def tok_defs)
  have h2: "in_sync (init 1500 32 (3 / 10))" by (rule in_sync_init)
  have ev: "current_rating (init 1500 32 (3 / 10)) [65] = 1500"
    "current_rating (init 1500 32 (3 / 10)) [66] = 1500"
    "k_factor (init 1500 32 (3 / 10)) = 32"
    "calculate_performance_score (card_weight (init 1500 32 (3 / 10))) tok_hikiwake 12 5
       = 191 / 340"
    "calculate_expected_score 1500 1500 = 1 / 2"
    "current_stats (init 1500 32 (3 / 10)) p = \<lparr>wins = 0, losses = 0\<rparr>"
    "games_counted (init 1500 32 (3 / 10)) = 0"
    "match_history (init 1500 32 (3 / 10)) = []" for p
    by (simp_all add: current_rating_def current_stats_def games_counted_def init_def
          calculate_performance_score_def calculate_expected_score_def base_score_def
          card_ratio_def tok_hikiwake_def tok_defs)
  show ?thesis
    using unrecognized_result_update [OF h1 h2, of "[65]" "[66]" 12 5] h1 h2
    unfolding ev by auto
qed

lemmas eval_defs = update_ratings_def ensure_player_def init_def Let_def record_result_def
        add_win_def add_loss_def calculate_expected_score_def
        calculate_performance_score_def base_score_def card_ratio_def tok_defs
        tok_hikiwake_def

section \<open>Sample runs\<close>

lemma load_eval:
  "load_previous_ratings (init 1500 32 (3 / 10)) (Some sample_checkpoint)
     = (\<lparr>initial_rating = 1500, k_factor = 32, card_weight = 3 / 10,
         player_ratings = [([65], 1600)],
         player_stats = [([65], \<lparr>wins = 3, losses = 1\<rparr>)],
         match_history = []\<rparr>,
        [LoadStart, LoadError, StartFresh])"
  by (simp add: load_previous_ratings_def sample_checkpoint_def init_def strip_def is_space_def)

lemma clean_sample:
  "clean [sample_row_A, sample_row_B] =
     [\<lparr>r_match = Some 1, r_name = [65], r_opponent = [66], r_result = tok_kachi, r_cards = 17\<rparr>,
      \<lparr>r_match = Some 1, r_name = [66], r_opponent = [65], r_result = tok_make, r_cards = 0\<rparr>]"
  by (simp add: clean_def clean_row_def sample_row_A_def sample_row_B_def strip_def
        is_space_def List.map_filter_simps)

lemma results_contradict_iff:
  "results_contradict r1 r2 \<longleftrightarrow>
     (r1 \<in> set win_results \<or> r1 \<in> set lose_results) \<and> \<not> complementary r1 r2"
  by (auto simp: results_contradict_def complementary_def win_results_def lose_results_def
        tok_defs)

lemma sample_results:
  "\<not> results_contradict tok_kachi tok_make"
  "\<not> results_contradict tok_hikiwake r"
  "\<not> complementary tok_hikiwake r"
  "results_contradict tok_kachi tok_hikiwake"
  by (simp_all add: results_contradict_def complementary_def win_results_def
        lose_results_def tok_defs tok_hikiwake_def)

lemmas pass_defs = match_numbers_def group_of_def List.map_filter_simps process_row_def
  pair_id_def Let_def

lemma pm_sample:
  "process_matches (init 1500 32 (3 / 10)) [sample_row_A, sample_row_B]
     = Inr (store_after_win 17 0, [MatchHeader 1, Applied 1 [65] [66] 17 0 tok_kachi])"
  unfolding process_matches_def clean_sample
  by (simp add: pass_defs sample_results scenario_17_0)

lemma clean_sample_twice:
  "clean [sample_row_A, sample_row_B, sample_row_A, sample_row_B] =
     [\<lparr>r_match = Some 1, r_name = [65], r_opponent = [66], r_result = tok_kachi, r_cards = 17\<rparr>,
      \<lparr>r_match = Some 1, r_name = [66], r_opponent = [65], r_result = tok_make, r_cards = 0\<rparr>,
      \<lparr>r_match = Some 1, r_name = [65], r_opponent = [66], r_result = tok_kachi, r_cards = 17\<rparr>,
      \<lparr>r_match = Some 1, r_name = [66], r_opponent = [65], r_result = tok_make, r_cards = 0\<rparr>]"
  by (simp add: clean_def clean_row_def sample_row_A_def sample_row_B_def strip_def
        is_space_def List.map_filter_simps)

lemma pm_sample_twice:
  "process_matches (init 1500 32 (3 / 10))
       [sample_row_A, sample_row_B, sample_row_A, sample_row_B]
     = Inr (store_after_win 17 0, [MatchHeader 1, Applied 1 [65] [66] 17 0 tok_kachi])"
  unfolding process_matches_def clean_sample_twice
  by (simp add: pass_defs sample_results scenario_17_0)

lemma scenario_draw:
  "update_ratings (init 1500 32 (3 / 10)) [65] [66] tok_hikiwake 12 5
     = Inr (store_after_draw, 1500 + 168 / 85, 1500 - 168 / 85)"
  by (simp add: eval_defs store_after_draw_def)

lemma clean_draw:
  "clean [draw_row_A, draw_row_B] =
     [\<lparr>r_match = Some 1, r_name = [65], r_opponent = [66], r_result = tok_hikiwake, r_cards = 12\<rparr>,
      \<lparr>r_match = Some 1, r_name = [66], r_opponent = [65], r_result = tok_kachi, r_cards = 5\<rparr>]"
  by (simp add: clean_def clean_row_def draw_row_A_def draw_row_B_def strip_def
        is_space_def List.map_filter_simps)

lemma pm_draw:
  "process_matches (init 1500 32 (3 / 10)) [draw_row_A, draw_row_B]
     = Inr (store_after_draw, [MatchHeader 1, Applied 1 [65] [66] 12 5 tok_hikiwake])"
  unfolding process_matches_def clean_draw
  by (simp add: pass_defs sample_results scenario_draw)

lemma clean_draw_rev:
  "clean [draw_row_B, draw_row_A] =
     [\<lparr>r_match = Some 1, r_name = [66], r_opponent = [65], r_result = tok_kachi, r_cards = 5\<rparr>,
      \<lparr>r_match = Some 1, r_name = [65], r_opponent = [66], r_result = tok_hikiwake, r_cards = 12\<rparr>]"
  by (simp add: clean_def clean_row_def draw_row_A_def draw_row_B_def strip_def
        is_space_def List.map_filter_simps)

lemma pm_draw_rev:
  "process_matches (init 1500 32 (3 / 10)) [draw_row_B, draw_row_A]
     = Inr (store_after_draw,
            [MatchHeader 1, ResultContradiction [66] [65] tok_kachi tok_hikiwake,
             Applied 1 [65] [66] 12 5 tok_hikiwake])"
  unfolding process_matches_def clean_draw_rev
  by (simp add: pass_defs sample_results scenario_draw)

section \<open>Totality\<close>

lemma add_win_Inr:
  "p \<in> fst ` set st \<Longrightarrow> \<exists>st'. add_win p st = Inr st' \<and> fst ` set st' = fst ` set st"
  by (auto simp: add_win_def dom_update map_of_None_iff split: option.splits)

lemma add_loss_Inr:
  "p \<in> fst ` set st \<Longrightarrow> \<exists>st'. add_loss p st = Inr st' \<and> fst ` set st' = fst ` set st"
  by (auto simp: add_loss_def dom_update map_of_None_iff split: option.splits)

lemma record_result_Inr:
  assumes "a \<in> fst ` set st" and "b \<in> fst ` set st"
  shows "\<exists>st'. record_result res a b st = Inr st' \<and> fst ` set st' = fst ` set st"
proof -
  obtain w1 where w1: "add_win a st = Inr w1" "fst ` set w1 = fst ` set st"
    using add_win_Inr [OF assms(1)] by blast
  obtain w2 where w2: "add_loss b w1 = Inr w2" "fst ` set w2 = fst ` set w1"
    using add_loss_Inr [of b w1] assms(2) w1(2) by blast
  obtain l1 where l1: "add_loss a st = Inr l1" "fst ` set l1 = fst ` set st"
    using add_loss_Inr [OF assms(1)] by blast
  obtain l2 where l2: "add_win b l1 = Inr l2" "fst ` set l2 = fst ` set l1"
    using add_win_Inr [of b l1] assms(2) l1(2) by blast
  show ?thesis
    using w1 w2 l1 l2 by (simp add: record_result_def)
qed

lemma update_ratings_total:
  assumes "in_sync s"
  shows "\<exists>s' na nb. update_ratings s a b res ca cb = Inr (s', na, nb) \<and> in_sync s'"
proof -
  let ?s2 = "ensure_player (ensure_player s a) b"
  have sync2: "in_sync ?s2" using assms by (simp add: in_sync_ensure)
  then have keys: "fst ` set (player_stats ?s2) = insert a (insert b (fst ` set (player_ratings s)))"
    by (simp add: in_sync_def ensure2_keys)
  then obtain st' where st': "record_result res a b (player_stats ?s2) = Inr st'"
    "fst ` set st' = fst ` set (player_stats ?s2)"
    using record_result_Inr [of a "player_stats ?s2" b res] by auto
  obtain s' na nb where u: "update_ratings s a b res ca cb = Inr (s', na, nb)"
    using update_ratings_Inr_ex [OF st'(1)] by blast
  have "player_stats s' = st'" using update_ratings_Inr(4) [OF u] st'(1) by simp
  moreover have "fst ` set (player_ratings s') = fst ` set (player_ratings ?s2)"
    using update_ratings_Inr(3) [OF u] by (auto simp: dom_update ensure2_keys)
  ultimately have "in_sync s'" using st'(2) sync2 by (simp add: in_sync_def)
  with u show ?thesis by blast
qed

section \<open>The loop body and the loops\<close>

lemma process_row_cases:
  assumes "process_row m g r (s, d, out) = Inr (s', d', out')"
  shows "(s' = s \<and> d' = d \<and> (out' = out \<or> (\<exists>w. is_warning w \<and> out' = out @ [w])))
       \<or> ((m, pair_id (r_name r) (r_opponent r)) \<notin> d
          \<and> d' = insert (m, pair_id (r_name r) (r_opponent r)) d
          \<and> (\<exists>oc na nb.
                update_ratings s (r_name r) (r_opponent r) (r_result r) (r_cards r) oc
                  = Inr (s', na, nb)
                \<and> out' = out @ [Applied m (r_name r) (r_opponent r) (r_cards r) oc
                                   (r_result r)]))"
  using assms
  by (auto simp: process_row_def Let_def split: if_splits list.splits sum.splits)

lemma process_row_total:
  assumes "in_sync s"
  shows "\<exists>s' d' out'. process_row m g r (s, d, out) = Inr (s', d', out') \<and> in_sync s'"
proof -
  have upd: "\<exists>s' na nb.
      update_ratings s (r_name r) (r_opponent r) (r_result r) (r_cards r) oc = Inr (s', na, nb)
      \<and> in_sync s'" for oc
    by (rule update_ratings_total [OF assms])
  show ?thesis
  proof (cases "filter (\<lambda>q. r_name q = r_opponent r) g")
    case Nil
    then show ?thesis using assms by (simp add: process_row_def Let_def)
  next
    case (Cons od rest)
    obtain s' na nb where u:
      "update_ratings s (r_name r) (r_opponent r) (r_result r) (r_cards r) (r_cards od)
         = Inr (s', na, nb)" "in_sync s'"
      using upd [of "r_cards od"] by blast
    show ?thesis using Cons assms u by (simp add: process_row_def Let_def)
  qed
qed

lemma process_rows_invariant:
  assumes "process_rows m g rs st = Inr st'"
    and "P st"
    and "\<And>r st st'. P st \<Longrightarrow> process_row m g r st = Inr st' \<Longrightarrow> P st'"
  shows "P st'"
  using assms(1,2)
proof (induction rs arbitrary: st)
  case Nil
  then show ?case by simp
next
  case (Cons r rs)
  from Cons.prems(1) obtain st1 where
    r: "process_row m g r st = Inr st1" and rest: "process_rows m g rs st1 = Inr st'"
    by (auto split: sum.splits)
  have "P st1" using assms(3) [OF Cons.prems(2) r] .
  then show ?case using Cons.IH [OF rest] by simp
qed

lemma process_groups_invariant:
  assumes "process_groups rows ms st = Inr st'"
    and "P st"
    and "\<And>m g r st st'. P st \<Longrightarrow> process_row m g r st = Inr st' \<Longrightarrow> P st'"
    and "\<And>m s d out. P (s, d, out) \<Longrightarrow> P (s, d, out @ [MatchHeader m])"
  shows "P st'"
  using assms(1,2)
proof (induction ms arbitrary: st)
  case Nil
  then show ?case by simp
next
  case (Cons m ms)
  obtain s d out where st: "st = (s, d, out)" by (cases st)
  from Cons.prems(1) st obtain st1 where
    g: "process_rows m (group_of rows m) (group_of rows m) (s, d, out @ [MatchHeader m]) = Inr st1"
    and rest: "process_groups rows ms st1 = Inr st'"
    by (auto split: sum.splits)
  have "P (s, d, out @ [MatchHeader m])" using assms(4) Cons.prems(2) st by simp
  then have "P st1"
    using process_rows_invariant [OF g, of P] assms(3) by blast
  then show ?case using Cons.IH [OF rest] by simp
qed

lemma process_rows_total:
  "in_sync (fst st) \<Longrightarrow> \<exists>st'. process_rows m g rs st = Inr st' \<and> in_sync (fst st')"
proof (induction rs arbitrary: st)
  case Nil
  then show ?case by simp
next
  case (Cons r rs)
  obtain s d out where st: "st = (s, d, out)" by (cases st)
  with Cons.prems obtain s1 d1 out1 where
    r: "process_row m g r st = Inr (s1, d1, out1)" and s1: "in_sync s1"
    using process_row_total [of s m g r d out] by auto
  from Cons.IH [of "(s1, d1, out1)"] s1 r show ?case by simp
qed

lemma process_groups_total:
  "in_sync (fst st) \<Longrightarrow> \<exists>st'. process_groups rows ms st = Inr st' \<and> in_sync (fst st')"
proof (induction ms arbitrary: st)
  case Nil
  then show ?case by simp
next
  case (Cons m ms)
  obtain s d out where st: "st = (s, d, out)" by (cases st)
  have "in_sync (fst (s, d, out @ [MatchHeader m]))" using Cons.prems st by simp
  from process_rows_total [OF this, of m "group_of rows m" "group_of rows m"]
  obtain st1 where
    g: "process_rows m (group_of rows m) (group_of rows m) (s, d, out @ [MatchHeader m]) = Inr st1"
    and s1: "in_sync (fst st1)"
    by blast
  from Cons.IH [OF s1] g st show ?case by simp
qed

lemma process_matches_total:
  assumes "in_sync s"
  shows "\<exists>s' out. process_matches s matches_df = Inr (s', out) \<and> in_sync s'"
proof (cases "length (clean matches_df) = 0")
  case True
  then show ?thesis using assms by (simp add: process_matches_def)
next
  case False
  obtain s' d' out' where
    "process_groups (clean matches_df) (match_numbers (clean matches_df)) (s, {}, [])
       = Inr (s', d', out')" "in_sync s'"
    using process_groups_total [of "(s, {}, [])"] assms by fastforce
  with False show ?thesis by (simp add: process_matches_def Let_def)
qed

section \<open>Deduplication\<close>

lemma dedup_invD:
  assumes "dedup_inv (s, d, out)"
  shows "e \<in> set out \<Longrightarrow> applied_key e = Some k \<Longrightarrow> k \<in> d"
    and "updates_for k out \<le> 1"
  using assms by (cases k; auto simp: dedup_inv_def)+

lemma dedup_invI:
  assumes "\<And>e k. e \<in> set out \<Longrightarrow> applied_key e = Some k \<Longrightarrow> k \<in> d"
    and "\<And>k. updates_for k out \<le> 1"
  shows "dedup_inv (s, d, out)"
  using assms by (auto simp: dedup_inv_def)

lemma updates_for_zero:
  "(\<forall>e \<in> set out. applied_key e \<noteq> Some k) \<Longrightarrow> updates_for k out = 0"
  by (simp add: updates_for_def)

lemma updates_for_append: "updates_for k (out @ es) = updates_for k out + updates_for k es"
  by (simp add: updates_for_def)

lemma updates_applied_append:
  "updates_applied (out @ es) = updates_applied out + updates_applied es"
  by (simp add: updates_applied_def)

lemma warning_not_applied: "is_warning w \<Longrightarrow> applied_key w = None"
  by (cases w) simp_all

lemma dedup_inv_row:
  assumes inv: "dedup_inv st" and r: "process_row m g r st = Inr st'"
  shows "dedup_inv st'"
proof -
  obtain s d out where st: "st = (s, d, out)" by (cases st)
  obtain s' d' out' where st': "st' = (s', d', out')" by (cases st')
  let ?k = "(m, pair_id (r_name r) (r_opponent r))"
  have i1: "\<And>e k. e \<in> set out \<Longrightarrow> applied_key e = Some k \<Longrightarrow> k \<in> d"
    and i2: "\<And>k. updates_for k out \<le> 1"
    using dedup_invD [OF inv [unfolded st]] by blast+
  from process_row_cases [OF r [unfolded st st']]
  consider (same) "d' = d" "out' = out"
    | (warn) w where "d' = d" "is_warning w" "out' = out @ [w]"
    | (app) oc where "?k \<notin> d" "d' = insert ?k d"
        "out' = out @ [Applied m (r_name r) (r_opponent r) (r_cards r) oc (r_result r)]"
    by blast
  then show ?thesis
  proof cases
    case same
    show ?thesis unfolding st' same by (rule dedup_invI) (use i1 i2 in blast)+
  next
    case warn
    have "updates_for k out' = updates_for k out" for k
      using warn by (simp add: updates_for_append updates_for_def warning_not_applied)
    moreover have "k \<in> d'" if "e \<in> set out'" "applied_key e = Some k" for e k
    proof -
      have "e \<in> set out \<or> e = w" using that(1) warn(3) by auto
      then have "e \<in> set out" using that(2) warning_not_applied [OF warn(2)] by auto
      then show ?thesis using i1 that(2) warn(1) by blast
    qed
    ultimately show ?thesis unfolding st' using i2 by (intro dedup_invI) simp_all
  next
    case app
    have "applied_key e \<noteq> Some ?k" if "e \<in> set out" for e
      using i1 [OF that] app(1) by blast
    then have zero: "updates_for ?k out = 0" by (intro updates_for_zero) blast
    have "updates_for k out' \<le> 1" for k
    proof (cases "k = ?k")
      case True
      then show ?thesis using zero app(3) by (simp add: updates_for_append updates_for_def)
    next
      case False
      then have "updates_for k out' = updates_for k out"
        using app(3) by (auto simp: updates_for_append updates_for_def)
      then show ?thesis using i2 by simp
    qed
    moreover have "k \<in> d'" if "e \<in> set out'" "applied_key e = Some k" for e k
    proof -
      have "e \<in> set out \<or> applied_key e = Some ?k" using that(1) app(3) by auto
      then show ?thesis
      proof
        assume "e \<in> set out"
        then have "k \<in> d" using i1 that(2) by blast
        then show ?thesis using app(2) by simp
      next
        assume "applied_key e = Some ?k"
        then have "k = ?k" using that(2) by simp
        then show ?thesis using app(2) by simp
      qed
    qed
    ultimately show ?thesis unfolding st' by (intro dedup_invI) simp_all
  qed
qed

lemma dedup_inv_header:
  assumes "dedup_inv (s, d, out)"
  shows "dedup_inv (s, d, out @ [MatchHeader m])"
proof (rule dedup_invI)
  show "k \<in> d" if "e \<in> set (out @ [MatchHeader m])" "applied_key e = Some k" for e k
  proof -
    have "e \<in> set out \<or> e = MatchHeader m" using that(1) by auto
    then have "e \<in> set out" using that(2) by auto
    then show ?thesis using dedup_invD(1) [OF assms] that(2) by blast
  qed
  show "updates_for k (out @ [MatchHeader m]) \<le> 1" for k
    using dedup_invD(2) [OF assms, of k] by (simp add: updates_for_append updates_for_def)
qed

lemma history_inv_row:
  assumes inv: "history_inv s0 st" and r: "process_row m g r st = Inr st'"
  shows "history_inv s0 st'"
proof -
  obtain s d out where st: "st = (s, d, out)" by (cases st)
  obtain s' d' out' where st': "st' = (s', d', out')" by (cases st')
  from process_row_cases [OF r [unfolded st st']]
  consider (same) "s' = s" "out' = out"
    | (warn) w where "s' = s" "is_warning w" "out' = out @ [w]"
    | (app) oc na nb e where
        "update_ratings s (r_name r) (r_opponent r) (r_result r) (r_cards r) oc
           = Inr (s', na, nb)"
        "out' = out @ [e]" "applied_key e \<noteq> None"
    by fastforce
  then show ?thesis
  proof cases
    case same
    then show ?thesis using inv st st' by (simp add: history_inv_def)
  next
    case warn
    then show ?thesis
      using inv st st'
      by (simp add: history_inv_def updates_applied_append updates_applied_def
            warning_not_applied)
  next
    case app
    then show ?thesis
      using inv st st' update_ratings_Inr(5) [OF app(1)]
      by (simp add: history_inv_def updates_applied_append updates_applied_def)
  qed
qed

lemma history_inv_header:
  "history_inv s0 (s, d, out) \<Longrightarrow> history_inv s0 (s, d, out @ [MatchHeader m])"
  by (simp add: history_inv_def updates_applied_append updates_applied_def)

lemma process_matches_Inr:
  assumes "process_matches s matches_df = Inr (s', out)"
  shows "(clean matches_df = [] \<and> s' = s \<and> out = [NoValidData])
       \<or> (\<exists>d'. process_groups (clean matches_df) (match_numbers (clean matches_df))
                  (s, {}, []) = Inr (s', d', out))"
  using assms by (auto simp: process_matches_def Let_def split: if_splits sum.splits)

lemma process_matches_dedup_inv:
  assumes "process_matches s matches_df = Inr (s', out)"
  shows "updates_for k out \<le> 1"
    and "length (match_history s') = length (match_history s) + updates_applied out"
    and "updates_applied out = 0 \<Longrightarrow> s' = s"
proof -
  from process_matches_Inr [OF assms]
  consider (empty) "s' = s" "out = [NoValidData]"
    | (run) d' where "process_groups (clean matches_df) (match_numbers (clean matches_df))
                  (s, {}, []) = Inr (s', d', out)"
    by blast
  then have "updates_for k out \<le> 1
     \<and> length (match_history s') = length (match_history s) + updates_applied out
     \<and> (updates_applied out = 0 \<longrightarrow> s' = s)"
  proof cases
    case empty
    then show ?thesis by (simp add: updates_for_def updates_applied_def)
  next
    case run
    have "dedup_inv (s, {}, [])" by (rule dedup_invI) (simp_all add: updates_for_def)
    from process_groups_invariant [OF run, of dedup_inv, OF this]
    have d: "dedup_inv (s', d', out)"
      using dedup_inv_row dedup_inv_header by blast
    have "history_inv s (s, {}, [])" by (simp add: history_inv_def updates_applied_def)
    from process_groups_invariant [OF run, of "history_inv s", OF this]
    have h: "history_inv s (s', d', out)"
      using history_inv_row history_inv_header by blast
    from d have "updates_for k out \<le> 1" by (rule dedup_invD(2))
    with h show ?thesis by (simp add: history_inv_def)
  qed
  then show "updates_for k out \<le> 1"
    and "length (match_history s') = length (match_history s) + updates_applied out"
    and "updates_applied out = 0 \<Longrightarrow> s' = s"
    by simp_all
qed

lemma pair_id_commute: "pair_id p q = pair_id q p"
  by (auto simp: pair_id_def)

section \<open>Rejected pairs\<close>







section \<open>Contradictory results and the checkpoint\<close>

lemma recognised_iff:
  "r \<in> set win_results \<union> set lose_results \<longleftrightarrow>
   r \<in> {tok_kachi, tok_shouri, tok_maru, tok_make, tok_haiboku, tok_batsu}"
  by (auto simp: win_results_def lose_results_def)

lemma process_row_checked:
  assumes "(m, pair_id (r_name r) (r_opponent r)) \<notin> d"
    and "filter (\<lambda>q. r_name q = r_opponent r) g = od # rest"
    and "r_opponent od = r_name r"
  shows "process_row m g r (s, d, out) =
     (if results_contradict (r_result r) (r_result od)
      then Inr (s, d, out @ [ResultContradiction (r_name r) (r_opponent r) (r_result r)
                               (r_result od)])
      else case update_ratings s (r_name r) (r_opponent r) (r_result r) (r_cards r)
                  (r_cards od) of
             Inl e \<Rightarrow> Inl e
           | Inr (s', x) \<Rightarrow>
               Inr (s', insert (m, pair_id (r_name r) (r_opponent r)) d,
                    out @ [Applied m (r_name r) (r_opponent r) (r_cards r) (r_cards od)
                             (r_result r)]))"
  using assms by (simp add: process_row_def Let_def)

text \<open>What the check of line 262 does for a row whose pair is not yet processed and
  whose opponent's row names it back: it rejects the pair exactly when the row's own
  result is a recognised token and the two results are not complementary, and lets
  the update through otherwise.\<close>

lemma contradiction_check:
  assumes "(m, pair_id (r_name r) (r_opponent r)) \<notin> d"
    and "filter (\<lambda>q. r_name q = r_opponent r) g = od # rest"
    and "r_opponent od = r_name r"
    and "in_sync s"
  shows "(r_result r \<in> set win_results \<union> set lose_results
           \<and> \<not> complementary (r_result r) (r_result od)
          \<longrightarrow> process_row m g r (s, d, out)
                = Inr (s, d, out @ [ResultContradiction (r_name r) (r_opponent r)
                                      (r_result r) (r_result od)]))
       \<and> (r_result r \<notin> set win_results \<union> set lose_results
           \<or> complementary (r_result r) (r_result od)
          \<longrightarrow> (\<exists>s' na nb.
                 update_ratings s (r_name r) (r_opponent r) (r_result r) (r_cards r)
                   (r_cards od) = Inr (s', na, nb)
                 \<and> process_row m g r (s, d, out)
                   = Inr (s', insert (m, pair_id (r_name r) (r_opponent r)) d,
                          out @ [Applied m (r_name r) (r_opponent r) (r_cards r)
                                   (r_cards od) (r_result r)])))"
proof -
  obtain s' na nb where u:
    "update_ratings s (r_name r) (r_opponent r) (r_result r) (r_cards r) (r_cards od)
       = Inr (s', na, nb)"
    using update_ratings_total [OF assms(4)] by blast
  have c: "results_contradict (r_result r) (r_result od) \<longleftrightarrow>
           r_result r \<in> set win_results \<union> set lose_results
           \<and> \<not> complementary (r_result r) (r_result od)"
    by (simp add: results_contradict_iff)
  show ?thesis
  proof (cases "results_contradict (r_result r) (r_result od)")
    case True
    then show ?thesis using c by (simp add: process_row_checked [OF assms(1-3)])
  next
    case False
    then have "process_row m g r (s, d, out)
                   = Inr (s', insert (m, pair_id (r_name r) (r_opponent r)) d,
                          out @ [Applied m (r_name r) (r_opponent r) (r_cards r)
                                   (r_cards od) (r_result r)])"
      using u by (simp add: process_row_checked [OF assms(1-3)])
    with u False c show ?thesis by blast
  qed
qed

text \<open>C2: with the draw token on the row of \<open>A\<close> and a win token on the row of \<open>B\<close>
  the two results are not complementary, so the pair should be skipped with a warning
  and no update. The check of line 262 is one-sided: it reports the pair when read
  from the row of \<open>B\<close> but not when read from the row of \<open>A\<close>. With \<open>A\<close> first the
  update is applied without any warning; with \<open>B\<close> first the pair is reported as
  contradictory and then applied all the same from the row of \<open>A\<close>.\<close>

theorem unrecognised_result_applied:
  "\<not> complementary tok_hikiwake tok_kachi
   \<and> \<not> complementary tok_kachi tok_hikiwake
   \<and> results_contradict tok_kachi tok_hikiwake
   \<and> \<not> results_contradict tok_hikiwake tok_kachi
   \<and> process_matches (init 1500 32 (3 / 10)) [draw_row_A, draw_row_B]
       = Inr (store_after_draw, [MatchHeader 1, Applied 1 [65] [66] 12 5 tok_hikiwake])
   \<and> process_matches (init 1500 32 (3 / 10)) [draw_row_B, draw_row_A]
       = Inr (store_after_draw,
              [MatchHeader 1, ResultContradiction [66] [65] tok_kachi tok_hikiwake,
               Applied 1 [65] [66] 12 5 tok_hikiwake])
   \<and> map_of (player_ratings store_after_draw) [65] = Some (1500 + 168 / 85)
   \<and> map_of (player_ratings store_after_draw) [66] = Some (1500 - 168 / 85)
   \<and> length (match_history store_after_draw) = 1"
proof -
  have "\<not> complementary tok_kachi tok_hikiwake"
    by (simp add: complementary_def win_results_def lose_results_def tok_defs
          tok_hikiwake_def)
  then show ?thesis
    using pm_draw pm_draw_rev sample_results(2,3) [of tok_kachi] sample_results(4)
    by (simp add: store_after_draw_def)
qed

text \<open>C1: loading a checkpoint whose second row is malformed into a fresh store stops
  with the error messages, but the first row stays in the store: the store is neither
  unmodified nor empty.\<close>

theorem load_failure_keeps_rows:
  "load_previous_ratings (init 1500 32 (3 / 10)) (Some sample_checkpoint)
     = (\<lparr>initial_rating = 1500, k_factor = 32, card_weight = 3 / 10,
         player_ratings = [([65], 1600)],
         player_stats = [([65], \<lparr>wins = 3, losses = 1\<rparr>)],
         match_history = []\<rparr>,
        [LoadStart, LoadError, StartFresh])
   \<and> player_ratings (init 1500 32 (3 / 10)) = []
   \<and> player_stats (init 1500 32 (3 / 10)) = []"
  using load_eval by (simp add: init_def)

section \<open>Exactly one update for a valid pair\<close>

lemma pair_id_inj: "pair_id p q = pair_id a b \<longleftrightarrow> {p, q} = {a, b}"
  by (auto simp: pair_id_def doubleton_eq_iff split: if_splits)

lemma applied_key_between:
  "applied_key e = Some (m, pair_id a b) \<longleftrightarrow> applied_between m a b e"
  by (cases e) (simp_all add: pair_id_inj)

lemma updates_for_between: "updates_for (m, pair_id a b) out = updates_between m a b out"
  by (simp add: updates_for_def updates_between_def applied_key_between)

lemma keys_invD:
  "keys_inv (s, d, out) \<Longrightarrow> k \<in> d \<longleftrightarrow> (\<exists>e \<in> set out. applied_key e = Some k)"
  by (simp add: keys_inv_def)

lemma keys_inv_row:
  assumes inv: "keys_inv st" and r: "process_row m g r st = Inr st'"
  shows "keys_inv st'"
proof -
  obtain s d out where st: "st = (s, d, out)" by (cases st)
  obtain s' d' out' where st': "st' = (s', d', out')" by (cases st')
  let ?k = "(m, pair_id (r_name r) (r_opponent r))"
  have d: "d = {k. \<exists>e \<in> set out. applied_key e = Some k}"
    using inv st by (simp add: keys_inv_def)
  from process_row_cases [OF r [unfolded st st']]
  consider (same) "d' = d" "out' = out"
    | (warn) w where "d' = d" "is_warning w" "out' = out @ [w]"
    | (app) oc where "d' = insert ?k d"
        "out' = out @ [Applied m (r_name r) (r_opponent r) (r_cards r) oc (r_result r)]"
    by blast
  then have "d' = {k. \<exists>e \<in> set out'. applied_key e = Some k}"
  proof cases
    case same
    then show ?thesis using d by simp
  next
    case warn
    then show ?thesis using d by (auto simp: warning_not_applied)
  next
    case app
    then show ?thesis using d by auto
  qed
  then show ?thesis using st' by (simp add: keys_inv_def)
qed

lemma keys_inv_header: "keys_inv (s, d, out) \<Longrightarrow> keys_inv (s, d, out @ [MatchHeader m])"
  by (auto simp: keys_inv_def)

lemma updates_for_pos_iff:
  "0 < updates_for k out \<longleftrightarrow> (\<exists>e \<in> set out. applied_key e = Some k)"
  by (auto simp: updates_for_def filter_empty_conv)

lemma process_row_mono:
  assumes "process_row m g r (s, d, out) = Inr (s', d', out')"
  shows "updates_for k out \<le> updates_for k out'"
  using process_row_cases [OF assms] by (auto simp: updates_for_append)

lemma complementary_sym: "complementary x y \<Longrightarrow> complementary y x"
  by (auto simp: complementary_def)

lemma complementary_no_contradiction: "complementary x y \<Longrightarrow> \<not> results_contradict x y"
  by (simp add: results_contradict_iff)

text \<open>A row of a valid pair leaves exactly one applied update for the pair.\<close>

lemma valid_row_once:
  assumes v: "valid_pair g a b"
    and rin: "r \<in> set g"
    and name: "r_name r = a \<or> r_name r = b"
    and ki: "keys_inv (s, d, out)"
    and di: "dedup_inv (s, d, out)"
    and run: "process_row m g r (s, d, out) = Inr (s', d', out')"
  shows "updates_for (m, pair_id a b) out' = 1"
proof -
  let ?k = "(m, pair_id a b)"
  have opp: "(r_name r = a \<and> r_opponent r = b) \<or> (r_name r = b \<and> r_opponent r = a)"
    using v rin name by (auto simp: valid_pair_def)
  then have key: "(m, pair_id (r_name r) (r_opponent r)) = ?k"
    by (auto simp: pair_id_inj)
  show ?thesis
  proof (cases "?k \<in> d")
    case True
    then have "out' = out" using run key by (simp add: process_row_def Let_def)
    moreover have "0 < updates_for ?k out"
      using True keys_invD [OF ki, of ?k] by (simp add: updates_for_pos_iff)
    moreover have "updates_for ?k out \<le> 1" by (rule dedup_invD(2) [OF di])
    ultimately show ?thesis by simp
  next
    case False
    have zero: "updates_for ?k out = 0"
      using False keys_invD [OF ki, of ?k] updates_for_pos_iff [of ?k out] by simp
    obtain y where y: "y \<in> set g" "r_name y = r_opponent r"
      using v opp by (auto simp: valid_pair_def)
    then have "filter (\<lambda>q. r_name q = r_opponent r) g \<noteq> []"
      by (auto simp: filter_empty_conv)
    then obtain od rest where f: "filter (\<lambda>q. r_name q = r_opponent r) g = od # rest"
      by (cases "filter (\<lambda>q. r_name q = r_opponent r) g") auto
    then have "od \<in> set (filter (\<lambda>q. r_name q = r_opponent r) g)" by simp
    then have od: "od \<in> set g" "r_name od = r_opponent r" by auto
    have bk: "r_opponent od = r_name r"
      using v opp od by (auto simp: valid_pair_def)
    have "complementary (r_result r) (r_result od)"
      using v opp od rin complementary_sym by (auto simp: valid_pair_def)
    then have nc: "\<not> results_contradict (r_result r) (r_result od)"
      by (rule complementary_no_contradiction)
    have nk: "(m, pair_id (r_name r) (r_opponent r)) \<notin> d" using False key by simp
    have "out' = out @ [Applied m (r_name r) (r_opponent r) (r_cards r) (r_cards od)
                          (r_result r)]"
      using run nc unfolding process_row_checked [OF nk f bk]
      by (auto split: sum.splits)
    then show ?thesis
      using zero key by (simp add: updates_for_append updates_for_def)
  qed
qed

lemma pass_inv_row: "pass_inv st \<Longrightarrow> process_row m g r st = Inr st' \<Longrightarrow> pass_inv st'"
  unfolding pass_inv_def using keys_inv_row dedup_inv_row by blast

lemma stays_one:
  assumes "pass_inv st" and "updates_for k (snd (snd st)) = 1"
    and "process_row m g r st = Inr st'"
  shows "updates_for k (snd (snd st')) = 1"
proof -
  obtain s d out where st: "st = (s, d, out)" by (cases st)
  obtain s' d' out' where st': "st' = (s', d', out')" by (cases st')
  have "updates_for k out \<le> updates_for k out'"
    using process_row_mono assms(3) st st' by blast
  moreover have "updates_for k out' \<le> 1"
  proof -
    have "dedup_inv (s', d', out')"
      using pass_inv_row [OF assms(1,3)] st' by (simp add: pass_inv_def)
    then show ?thesis by (rule dedup_invD(2))
  qed
  ultimately show ?thesis using assms(2) st st' by simp
qed

lemma valid_rows_once:
  assumes v: "valid_pair g a b"
  shows "set rs \<subseteq> set g \<Longrightarrow> pass_inv st \<Longrightarrow> process_rows m g rs st = Inr st' \<Longrightarrow>
         (\<exists>r \<in> set rs. r_name r = a \<or> r_name r = b)
           \<or> updates_for (m, pair_id a b) (snd (snd st)) = 1 \<Longrightarrow>
         updates_for (m, pair_id a b) (snd (snd st')) = 1 \<and> pass_inv st'"
proof (induction rs arbitrary: st)
  case Nil
  then show ?case by simp
next
  case (Cons r rs)
  obtain s d out where st: "st = (s, d, out)" by (cases st)
  from Cons.prems(3) obtain st1 where
    r: "process_row m g r st = Inr st1" and rest: "process_rows m g rs st1 = Inr st'"
    by (auto split: sum.splits)
  obtain s1 d1 out1 where st1: "st1 = (s1, d1, out1)" by (cases st1)
  have inv1: "pass_inv st1" by (rule pass_inv_row [OF Cons.prems(2) r])
  have sub: "set rs \<subseteq> set g" and rin: "r \<in> set g" using Cons.prems(1) by auto
  have "(\<exists>x \<in> set rs. r_name x = a \<or> r_name x = b)
          \<or> updates_for (m, pair_id a b) (snd (snd st1)) = 1"
  proof (cases "updates_for (m, pair_id a b) (snd (snd st)) = 1")
    case True
    then show ?thesis using stays_one [OF Cons.prems(2) True r] by simp
  next
    case False
    with Cons.prems(4) have "r_name r = a \<or> r_name r = b
       \<or> (\<exists>x \<in> set rs. r_name x = a \<or> r_name x = b)" by auto
    then show ?thesis
    proof (elim disjE)
      assume "\<exists>x \<in> set rs. r_name x = a \<or> r_name x = b"
      then show ?thesis by simp
    next
      assume n: "r_name r = a"
      have "updates_for (m, pair_id a b) out1 = 1"
        using valid_row_once [OF v rin _ _ _ r [unfolded st st1]] n Cons.prems(2) st
        by (simp add: pass_inv_def)
      then show ?thesis using st1 by simp
    next
      assume n: "r_name r = b"
      have "updates_for (m, pair_id a b) out1 = 1"
        using valid_row_once [OF v rin _ _ _ r [unfolded st st1]] n Cons.prems(2) st
        by (simp add: pass_inv_def)
      then show ?thesis using st1 by simp
    qed
  qed
  then show ?case using Cons.IH [OF sub inv1 rest] by simp
qed


lemma pass_inv_header: "pass_inv (s, d, out) \<Longrightarrow> pass_inv (s, d, out @ [MatchHeader m])"
  by (simp add: pass_inv_def keys_inv_header dedup_inv_header)

lemma pass_inv_init: "pass_inv (s, {}, [])"
  unfolding pass_inv_def
  by (intro conjI dedup_invI) (simp_all add: keys_inv_def updates_for_def)

lemma valid_groups_once:
  assumes v: "valid_pair (group_of rows m) a b"
  shows "pass_inv st \<Longrightarrow> process_groups rows ms st = Inr st' \<Longrightarrow>
         m \<in> set ms \<or> updates_for (m, pair_id a b) (snd (snd st)) = 1 \<Longrightarrow>
         updates_for (m, pair_id a b) (snd (snd st')) = 1"
proof (induction ms arbitrary: st)
  case Nil
  then show ?case by simp
next
  case (Cons m0 ms)
  let ?k = "(m, pair_id a b)"
  obtain s d out where st: "st = (s, d, out)" by (cases st)
  let ?st0 = "(s, d, out @ [MatchHeader m0])"
  from Cons.prems(2) st obtain st1 where
    g: "process_rows m0 (group_of rows m0) (group_of rows m0) ?st0 = Inr st1"
    and rest: "process_groups rows ms st1 = Inr st'"
    by (auto split: sum.splits)
  have inv0: "pass_inv ?st0" using Cons.prems(1) st by (simp add: pass_inv_header)
  have cnt0: "updates_for ?k (snd (snd ?st0)) = updates_for ?k (snd (snd st))"
    using st by (simp add: updates_for_append updates_for_def)
  have inv1: "pass_inv st1"
    using process_rows_invariant [OF g, of pass_inv, OF inv0] pass_inv_row by blast
  have "m \<in> set ms \<or> updates_for ?k (snd (snd st1)) = 1"
  proof (cases "updates_for ?k (snd (snd st)) = 1")
    case True
    let ?P = "\<lambda>x. pass_inv x \<and> updates_for ?k (snd (snd x)) = 1"
    have "?P ?st0" using inv0 cnt0 True by simp
    from process_rows_invariant [OF g, of ?P, OF this]
    have "?P st1" using pass_inv_row stays_one by blast
    then show ?thesis by simp
  next
    case False
    with Cons.prems(3) have "m0 = m \<or> m \<in> set ms" by auto
    then show ?thesis
    proof
      assume "m \<in> set ms"
      then show ?thesis by simp
    next
      assume eq: "m0 = m"
      obtain r where "r \<in> set (group_of rows m)" "r_name r = a"
        using v by (auto simp: valid_pair_def)
      then have ex: "(\<exists>r \<in> set (group_of rows m). r_name r = a \<or> r_name r = b)
                       \<or> updates_for ?k (snd (snd ?st0)) = 1"
        by blast
      have g': "process_rows m (group_of rows m) (group_of rows m)
                  (s, d, out @ [MatchHeader m]) = Inr st1"
        using g eq by simp
      have inv0': "pass_inv (s, d, out @ [MatchHeader m])" using inv0 eq by simp
      have ex': "(\<exists>r \<in> set (group_of rows m). r_name r = a \<or> r_name r = b)
                  \<or> updates_for ?k (snd (snd (s, d, out @ [MatchHeader m]))) = 1"
        using ex eq by simp
      have "updates_for ?k (snd (snd st1)) = 1"
        using valid_rows_once [OF v subset_refl inv0' g' ex'] by simp
      then show ?thesis by simp
    qed
  qed
  then show ?case using Cons.IH [OF inv1 rest] by simp
qed

lemma valid_pair_match_number:
  assumes "valid_pair (group_of rows m) a b"
  shows "m \<in> set (match_numbers rows)"
proof -
  obtain r where "r \<in> set (group_of rows m)"
    using assms by (auto simp: valid_pair_def)
  then have "r \<in> set rows" "r_match r = Some m" by (auto simp: group_of_def)
  then have "m \<in> set (List.map_filter r_match rows)"
    unfolding List.map_filter_def by (force intro!: image_eqI [where x = r])
  then show ?thesis by (simp add: match_numbers_def)
qed

lemma process_matches_valid_once:
  assumes run: "process_matches s matches_df = Inr (s', out)"
    and v: "valid_pair (group_of (clean matches_df) m) a b"
  shows "updates_between m a b out = 1"
proof -
  have ne: "clean matches_df \<noteq> []"
    using v by (auto simp: valid_pair_def group_of_def)
  with process_matches_Inr [OF run] obtain d' where
    g: "process_groups (clean matches_df) (match_numbers (clean matches_df)) (s, {}, [])
          = Inr (s', d', out)"
    by blast
  have "updates_for (m, pair_id a b) (snd (snd (s', d', out))) = 1"
    using valid_groups_once [OF v pass_inv_init g] valid_pair_match_number [OF v] by blast
  then show ?thesis by (simp add: updates_for_between)
qed

lemma process_matches_between_le:
  assumes "process_matches s matches_df = Inr (s', out)"
  shows "updates_between m a b out \<le> 1"
  using process_matches_dedup_inv(1) [OF assms, of "(m, pair_id a b)"]
  by (simp add: updates_for_between)


lemma clean_two_pairs:
  "clean two_pair_sheet =
     [\<lparr>r_match = Some 1, r_name = [65], r_opponent = [66], r_result = tok_kachi, r_cards = 17\<rparr>,
      \<lparr>r_match = Some 1, r_name = [66], r_opponent = [65], r_result = tok_make, r_cards = 0\<rparr>,
      \<lparr>r_match = Some 1, r_name = [67], r_opponent = [68], r_result = tok_kachi, r_cards = 17\<rparr>,
      \<lparr>r_match = Some 1, r_name = [68], r_opponent = [67], r_result = tok_make, r_cards = 0\<rparr>]"
  by (simp add: clean_def clean_row_def two_pair_sheet_def sample_row_A_def sample_row_B_def
        strip_def is_space_def List.map_filter_simps)

lemma pm_two_pairs:
  "process_matches (init 1500 32 (3 / 10)) two_pair_sheet
     = Inr (store_two_pairs,
            [MatchHeader 1, Applied 1 [65] [66] 17 0 tok_kachi,
             Applied 1 [67] [68] 17 0 tok_kachi])"
  unfolding process_matches_def clean_two_pairs
  by (simp add: pass_defs sample_results scenario_17_0 scenario_second_pair)

lemma sample_complementary: "complementary tok_kachi tok_make"
  by (simp add: complementary_def win_results_def lose_results_def)

lemma valid_samples:
  "valid_pair (group_of (clean [sample_row_A, sample_row_B, sample_row_A, sample_row_B]) 1)
     [65] [66]"
  "valid_pair (group_of (clean two_pair_sheet) 1) [65] [66]"
  "valid_pair (group_of (clean two_pair_sheet) 1) [67] [68]"
  by (simp_all add: valid_pair_def clean_sample_twice clean_two_pairs group_of_def
        sample_complementary)

text \<open>C7: in a run of \<open>process_matches\<close> no match has more than one applied update
  between the same two players, in either order; a pair that is valid in its match (both
  players have rows, however many, each naming the other, with complementary results)
  gets exactly one; and the history grows by one entry per applied update. The key of
  line 237 identifies exactly the unordered pair. The sheet with one row per
  participant, the sheet with both rows duplicated and the sheet with two pairs in one
  match evaluate accordingly.\<close>

theorem process_matches_dedup:
  "(process_matches s matches_df = Inr (s', out) \<longrightarrow>
      (\<forall>m a b. updates_between m a b out \<le> 1)
      \<and> (\<forall>m a b. valid_pair (group_of (clean matches_df) m) a b
                    \<longrightarrow> updates_between m a b out = 1)
      \<and> (\<forall>k. updates_for k out \<le> 1)
      \<and> length (match_history s') = length (match_history s) + updates_applied out)
   \<and> (in_sync s \<longrightarrow> (\<exists>u evs. process_matches s matches_df = Inr (u, evs)))
   \<and> (pair_id p q = pair_id p' q' \<longleftrightarrow> {p, q} = {p', q'})
   \<and> pair_id p q = pair_id q p
   \<and> process_matches (init 1500 32 (3 / 10)) [sample_row_A, sample_row_B]
       = Inr (store_after_win 17 0, [MatchHeader 1, Applied 1 [65] [66] 17 0 tok_kachi])
   \<and> process_matches (init 1500 32 (3 / 10))
         [sample_row_A, sample_row_B, sample_row_A, sample_row_B]
       = Inr (store_after_win 17 0, [MatchHeader 1, Applied 1 [65] [66] 17 0 tok_kachi])
   \<and> process_matches (init 1500 32 (3 / 10)) two_pair_sheet
       = Inr (store_two_pairs,
              [MatchHeader 1, Applied 1 [65] [66] 17 0 tok_kachi,
               Applied 1 [67] [68] 17 0 tok_kachi])"
proof -
  have gen: "(\<forall>m a b. updates_between m a b out \<le> 1)
      \<and> (\<forall>m a b. valid_pair (group_of (clean matches_df) m) a b
                    \<longrightarrow> updates_between m a b out = 1)
      \<and> (\<forall>k. updates_for k out \<le> 1)
      \<and> length (match_history s') = length (match_history s) + updates_applied out"
    if run: "process_matches s matches_df = Inr (s', out)"
    using process_matches_between_le [OF run] process_matches_valid_once [OF run]
      process_matches_dedup_inv(1,2) [OF run]
    by blast
  have tot: "\<exists>u evs. process_matches s matches_df = Inr (u, evs)" if "in_sync s"
    using process_matches_total [OF that] by blast
  show ?thesis
    using gen tot pair_id_inj [of p q p' q'] pair_id_commute [of p q]
      pm_sample pm_sample_twice pm_two_pairs
    by blast
qed

theorem process_matches_dedup_witness:
  "valid_pair (group_of (clean [sample_row_A, sample_row_B, sample_row_A, sample_row_B]) 1)
     [65] [66]
   \<and> process_matches (init 1500 32 (3 / 10))
         [sample_row_A, sample_row_B, sample_row_A, sample_row_B]
       = Inr (store_after_win 17 0, [MatchHeader 1, Applied 1 [65] [66] 17 0 tok_kachi])
   \<and> updates_between 1 [65] [66] [MatchHeader 1, Applied 1 [65] [66] 17 0 tok_kachi] = 1
   \<and> length (match_history (store_after_win 17 0))
       = length (match_history (init 1500 32 (3 / 10)))
         + updates_applied [MatchHeader 1, Applied 1 [65] [66] 17 0 tok_kachi]
   \<and> valid_pair (group_of (clean two_pair_sheet) 1) [65] [66]
   \<and> valid_pair (group_of (clean two_pair_sheet) 1) [67] [68]
   \<and> process_matches (init 1500 32 (3 / 10)) two_pair_sheet
       = Inr (store_two_pairs,
              [MatchHeader 1, Applied 1 [65] [66] 17 0 tok_kachi,
               Applied 1 [67] [68] 17 0 tok_kachi])
   \<and> updates_between 1 [66] [65]
        [MatchHeader 1, Applied 1 [65] [66] 17 0 tok_kachi,
         Applied 1 [67] [68] 17 0 tok_kachi] = 1
   \<and> updates_between 1 [67] [68]
        [MatchHeader 1, Applied 1 [65] [66] 17 0 tok_kachi,
         Applied 1 [67] [68] 17 0 tok_kachi] = 1
   \<and> updates_between 1 [65] [67]
        [MatchHeader 1, Applied 1 [65] [66] 17 0 tok_kachi,
         Applied 1 [67] [68] 17 0 tok_kachi] \<le> 1"
proof -
  let ?L = "[MatchHeader 1, Applied 1 [65] [66] 17 0 tok_kachi]"
  let ?M = "[MatchHeader 1, Applied 1 [65] [66] 17 0 tok_kachi,
             Applied 1 [67] [68] 17 0 tok_kachi]"
  have sym: "updates_between 1 [66] [65] ?M = updates_between 1 [65] [66] ?M"
    by (simp add: updates_between_def insert_commute)
  note t1 = process_matches_dedup [where s = "init 1500 32 (3 / 10)"
      and matches_df = "[sample_row_A, sample_row_B, sample_row_A, sample_row_B]"
      and s' = "store_after_win 17 0" and out = ?L
      and p = "[]" and q = "[]" and p' = "[]" and q' = "[]"]
  note t2 = process_matches_dedup [where s = "init 1500 32 (3 / 10)"
      and matches_df = two_pair_sheet
      and s' = store_two_pairs and out = ?M
      and p = "[]" and q = "[]" and p' = "[]" and q' = "[]"]
  show ?thesis
    using t1 t2 valid_samples sym by metis
qed

end
